theory Spec2Isabelle
  imports Main "HOL-Library.Multiset"
begin

section \<open>Key codes (package ir, the const block)\<close>

text \<open>
  A key code is a Go \<open>int\<close>. The program never does arithmetic on key codes: it
  only compares them and uses them as map keys, so they are modelled as \<open>int\<close>.
\<close>

definition XK_Control :: int where [simp]: "XK_Control = 0x3B"
definition XK_RightShift :: int where [simp]: "XK_RightShift = 0x3C"
definition XK_RightControl :: int where [simp]: "XK_RightControl = 0x3E"
definition XK_Command :: int where [simp]: "XK_Command = 0x37"
definition XK_Shift :: int where [simp]: "XK_Shift = 0x38"
definition XK_ALT :: int where [simp]: "XK_ALT = 0x383"
definition XK_A :: int where [simp]: "XK_A = 0x00"
definition XK_S :: int where [simp]: "XK_S = 0x01"
definition XK_D :: int where [simp]: "XK_D = 0x02"
definition XK_F :: int where [simp]: "XK_F = 0x03"
definition XK_H :: int where [simp]: "XK_H = 0x04"
definition XK_G :: int where [simp]: "XK_G = 0x05"
definition XK_Z :: int where [simp]: "XK_Z = 0x06"
definition XK_X :: int where [simp]: "XK_X = 0x07"
definition XK_C :: int where [simp]: "XK_C = 0x08"
definition XK_V :: int where [simp]: "XK_V = 0x09"
definition XK_B :: int where [simp]: "XK_B = 0x0B"
definition XK_Q :: int where [simp]: "XK_Q = 0x0C"
definition XK_W :: int where [simp]: "XK_W = 0x0D"
definition XK_E :: int where [simp]: "XK_E = 0x0E"
definition XK_R :: int where [simp]: "XK_R = 0x0F"
definition XK_Y :: int where [simp]: "XK_Y = 0x10"
definition XK_T :: int where [simp]: "XK_T = 0x11"
definition XK_1 :: int where [simp]: "XK_1 = 0x12"
definition XK_2 :: int where [simp]: "XK_2 = 0x13"
definition XK_3 :: int where [simp]: "XK_3 = 0x14"
definition XK_4 :: int where [simp]: "XK_4 = 0x15"
definition XK_6 :: int where [simp]: "XK_6 = 0x16"
definition XK_5 :: int where [simp]: "XK_5 = 0x17"
definition XK_EQUAL :: int where [simp]: "XK_EQUAL = 0x18"
definition XK_9 :: int where [simp]: "XK_9 = 0x19"
definition XK_7 :: int where [simp]: "XK_7 = 0x1A"
definition XK_MINUS :: int where [simp]: "XK_MINUS = 0x1B"
definition XK_8 :: int where [simp]: "XK_8 = 0x1C"
definition XK_0 :: int where [simp]: "XK_0 = 0x1D"
definition XK_RightBracket :: int where [simp]: "XK_RightBracket = 0x1E"
definition XK_O :: int where [simp]: "XK_O = 0x1F"
definition XK_U :: int where [simp]: "XK_U = 0x20"
definition XK_LeftBracket :: int where [simp]: "XK_LeftBracket = 0x21"
definition XK_I :: int where [simp]: "XK_I = 0x22"
definition XK_P :: int where [simp]: "XK_P = 0x23"
definition XK_L :: int where [simp]: "XK_L = 0x25"
definition XK_J :: int where [simp]: "XK_J = 0x26"
definition XK_Quote :: int where [simp]: "XK_Quote = 0x27"
definition XK_K :: int where [simp]: "XK_K = 0x28"
definition XK_SEMICOLON :: int where [simp]: "XK_SEMICOLON = 0x29"
definition XK_BACKSLASH :: int where [simp]: "XK_BACKSLASH = 0x2A"
definition XK_COMMA :: int where [simp]: "XK_COMMA = 0x2B"
definition XK_SLASH :: int where [simp]: "XK_SLASH = 0x2C"
definition XK_N :: int where [simp]: "XK_N = 0x2D"
definition XK_M :: int where [simp]: "XK_M = 0x2E"
definition XK_Period :: int where [simp]: "XK_Period = 0x2F"
definition XK_GRAVE :: int where [simp]: "XK_GRAVE = 0x32"
definition XK_KeypadDecimal :: int where [simp]: "XK_KeypadDecimal = 0x41"
definition XK_KeypadMultiply :: int where [simp]: "XK_KeypadMultiply = 0x43"
definition XK_KeypadPlus :: int where [simp]: "XK_KeypadPlus = 0x45"
definition XK_KeypadClear :: int where [simp]: "XK_KeypadClear = 0x47"
definition XK_KeypadDivide :: int where [simp]: "XK_KeypadDivide = 0x4B"
definition XK_KeypadEnter :: int where [simp]: "XK_KeypadEnter = 0x4C"
definition XK_KeypadMinus :: int where [simp]: "XK_KeypadMinus = 0x4E"
definition XK_KeypadEquals :: int where [simp]: "XK_KeypadEquals = 0x51"
definition XK_Keypad0 :: int where [simp]: "XK_Keypad0 = 0x52"
definition XK_Keypad1 :: int where [simp]: "XK_Keypad1 = 0x53"
definition XK_Keypad2 :: int where [simp]: "XK_Keypad2 = 0x54"
definition XK_Keypad3 :: int where [simp]: "XK_Keypad3 = 0x55"
definition XK_Keypad4 :: int where [simp]: "XK_Keypad4 = 0x56"
definition XK_Keypad5 :: int where [simp]: "XK_Keypad5 = 0x57"
definition XK_Keypad6 :: int where [simp]: "XK_Keypad6 = 0x58"
definition XK_Keypad7 :: int where [simp]: "XK_Keypad7 = 0x59"
definition XK_Keypad8 :: int where [simp]: "XK_Keypad8 = 0x5B"
definition XK_Keypad9 :: int where [simp]: "XK_Keypad9 = 0x5C"
definition XK_ENTER :: int where [simp]: "XK_ENTER = 0x24"
definition XK_TAB :: int where [simp]: "XK_TAB = 0x30"
definition XK_SPACE :: int where [simp]: "XK_SPACE = 0x31"
definition XK_DELETE :: int where [simp]: "XK_DELETE = 0x33"
definition XK_ESC :: int where [simp]: "XK_ESC = 0x35"
definition XK_CAPSLOCK :: int where [simp]: "XK_CAPSLOCK = 0x39"
definition XK_Option :: int where [simp]: "XK_Option = 0x3A"
definition XK_RightOption :: int where [simp]: "XK_RightOption = 0x3D"
definition XK_Function :: int where [simp]: "XK_Function = 0x3F"
definition XK_F17 :: int where [simp]: "XK_F17 = 0x40"
definition XK_VOLUMEUP :: int where [simp]: "XK_VOLUMEUP = 0x48"
definition XK_VOLUMEDOWN :: int where [simp]: "XK_VOLUMEDOWN = 0x49"
definition XK_MUTE :: int where [simp]: "XK_MUTE = 0x4A"
definition XK_F18 :: int where [simp]: "XK_F18 = 0x4F"
definition XK_F19 :: int where [simp]: "XK_F19 = 0x50"
definition XK_F20 :: int where [simp]: "XK_F20 = 0x5A"
definition XK_F5 :: int where [simp]: "XK_F5 = 0x60"
definition XK_F6 :: int where [simp]: "XK_F6 = 0x61"
definition XK_F7 :: int where [simp]: "XK_F7 = 0x62"
definition XK_F3 :: int where [simp]: "XK_F3 = 0x63"
definition XK_F8 :: int where [simp]: "XK_F8 = 0x64"
definition XK_F9 :: int where [simp]: "XK_F9 = 0x65"
definition XK_F11 :: int where [simp]: "XK_F11 = 0x67"
definition XK_F13 :: int where [simp]: "XK_F13 = 0x69"
definition XK_F16 :: int where [simp]: "XK_F16 = 0x6A"
definition XK_F14 :: int where [simp]: "XK_F14 = 0x6B"
definition XK_F10 :: int where [simp]: "XK_F10 = 0x6D"
definition XK_F12 :: int where [simp]: "XK_F12 = 0x6F"
definition XK_F15 :: int where [simp]: "XK_F15 = 0x71"
definition XK_HELP :: int where [simp]: "XK_HELP = 0x72"
definition XK_HOME :: int where [simp]: "XK_HOME = 0x73"
definition XK_PAGEUP :: int where [simp]: "XK_PAGEUP = 0x74"
definition XK_ForwardDelete :: int where [simp]: "XK_ForwardDelete = 0x75"
definition XK_F4 :: int where [simp]: "XK_F4 = 0x76"
definition XK_END :: int where [simp]: "XK_END = 0x77"
definition XK_F2 :: int where [simp]: "XK_F2 = 0x78"
definition XK_PAGEDOWN :: int where [simp]: "XK_PAGEDOWN = 0x79"
definition XK_F1 :: int where [simp]: "XK_F1 = 0x7A"
definition XK_LEFT :: int where [simp]: "XK_LEFT = 0x7B"
definition XK_RIGHT :: int where [simp]: "XK_RIGHT = 0x7C"
definition XK_DOWN :: int where [simp]: "XK_DOWN = 0x7D"
definition XK_UP :: int where [simp]: "XK_UP = 0x7E"

section \<open>Go strings\<close>

text \<open>
  A Go string is a sequence of bytes; \<open>string\<close> (a list of 8-bit \<open>char\<close>) is
  exactly that. A rune is a Unicode code point. Go's \<open>rune\<close> is a 32-bit integer,
  but ranging over a string yields values from 0 to 0x10FFFF only, so a rune is
  modelled as a natural number.
\<close>

type_synonym rune = nat

section \<open>The table \<open>stringMap\<close>\<close>

text \<open>
  The map literal, entry by entry in the order of the source. The glyph of
  \<open>XK_Quote\<close> is the apostrophe (0x27), of \<open>XK_BACKSLASH\<close> the backslash (0x5C),
  of \<open>XK_GRAVE\<close> the backquote (0x60) and of \<open>XK_TAB\<close> the tabulator (0x09).
\<close>

definition stringMap_entries :: "(int \<times> string) list" where
  "stringMap_entries = [
   (XK_A, ''a''),
   (XK_S, ''s''),
   (XK_D, ''d''),
   (XK_F, ''f''),
   (XK_H, ''h''),
   (XK_G, ''g''),
   (XK_Z, ''z''),
   (XK_X, ''x''),
   (XK_C, ''c''),
   (XK_V, ''v''),
   (XK_B, ''b''),
   (XK_Q, ''q''),
   (XK_W, ''w''),
   (XK_E, ''e''),
   (XK_R, ''r''),
   (XK_Y, ''y''),
   (XK_T, ''t''),
   (XK_1, ''1''),
   (XK_2, ''2''),
   (XK_3, ''3''),
   (XK_4, ''4''),
   (XK_6, ''6''),
   (XK_5, ''5''),
   (XK_EQUAL, ''=''),
   (XK_9, ''9''),
   (XK_7, ''7''),
   (XK_MINUS, ''-''),
   (XK_8, ''8''),
   (XK_0, ''0''),
   (XK_RightBracket, '']''),
   (XK_O, ''o''),
   (XK_U, ''u''),
   (XK_LeftBracket, ''[''),
   (XK_I, ''i''),
   (XK_P, ''p''),
   (XK_L, ''l''),
   (XK_J, ''j''),
   (XK_Quote, [CHR 0x27]),
   (XK_K, ''k''),
   (XK_SEMICOLON, '';''),
   (XK_BACKSLASH, [CHR 0x5C]),
   (XK_COMMA, '',''),
   (XK_SLASH, ''/''),
   (XK_N, ''n''),
   (XK_M, ''m''),
   (XK_Period, ''.''),
   (XK_GRAVE, [CHR 0x60]),
   (XK_KeypadDecimal, ''.''),
   (XK_KeypadMultiply, ''*''),
   (XK_KeypadPlus, ''+''),
   (XK_KeypadClear, ''''),
   (XK_KeypadDivide, ''/''),
   (XK_KeypadEnter, ''''),
   (XK_KeypadMinus, ''-''),
   (XK_KeypadEquals, ''=''),
   (XK_Keypad0, ''0''),
   (XK_Keypad1, ''1''),
   (XK_Keypad2, ''2''),
   (XK_Keypad3, ''3''),
   (XK_Keypad4, ''4''),
   (XK_Keypad5, ''5''),
   (XK_Keypad6, ''6''),
   (XK_Keypad7, ''7''),
   (XK_Keypad8, ''8''),
   (XK_Keypad9, ''9''),
   (XK_TAB, [CHR 0x09]),
   (XK_SPACE, '' '')]"

text \<open>
  The lookup \<open>stringMap[key]\<close>. The keys of the literal are pairwise different
  (lemma \<open>stringMap_keys_distinct\<close>), so the lookup finds the one entry of a key.
\<close>

definition stringMap :: "int \<rightharpoonup> string" where
  "stringMap = map_of stringMap_entries"

section \<open>Errors\<close>

text \<open>
  \<open>KeyNotFound key\<close> is \<open>fmt.Errorf("Key %v not found", key)\<close> of \<open>ToString\<close>;
  \<open>RuneNotFound v s\<close> is the error of \<open>ToKeys\<close>, whose message holds the rune \<open>v\<close>
  and the whole input \<open>s\<close>.
\<close>

datatype error = KeyNotFound int | RuneNotFound rune string

section \<open>\<open>ToString\<close>\<close>

text \<open>
  \<open>strings.ToUpper\<close> on an ASCII string: the letters \<open>a\<close> to \<open>z\<close> are moved to
  \<open>A\<close> to \<open>Z\<close>, every other byte is kept. This is the ASCII path of the library
  function; it is exact for every glyph of \<open>stringMap\<close>, all of which are ASCII
  (lemma \<open>stringMap_glyphs\<close>).
\<close>

definition upper_byte :: "char \<Rightarrow> char" where
  "upper_byte c =
     (let n = (of_char c :: nat) in if 97 \<le> n \<and> n \<le> 122 then char_of (n - 32) else c)"

definition ToUpper :: "string \<Rightarrow> string" where
  "ToUpper s = map upper_byte s"

text \<open>
  The loop of \<open>ToString\<close>, with the buffer \<open>buf\<close> and the field \<open>is.shift\<close> passed
  along. A result is the pair (text, error) that the Go function returns; \<open>None\<close> is
  the \<open>nil\<close> error. A key missing from \<open>stringMap\<close> returns at once with the empty
  string. In the \<open>switch\<close> the \<open>default\<close> branch is written first but, as in every Go
  \<open>switch\<close>, it runs only when no \<open>case\<close> holds; the cases are tried in the order
  \<open>is.shift\<close>, then the shift keys, then the other modifiers.
  \<open>bytes.Buffer.WriteString\<close> always returns a \<open>nil\<close> error, so the two
  \<open>return "", err\<close> are never taken.
\<close>

fun ToString_loop :: "int list \<Rightarrow> string \<Rightarrow> bool \<Rightarrow> string \<times> error option" where
  "ToString_loop [] buf shift = (buf, None)"
| "ToString_loop (key # keys) buf shift =
     (case stringMap key of
        None \<Rightarrow> ('''', Some (KeyNotFound key))
      | Some ks \<Rightarrow>
          if shift then ToString_loop keys (buf @ ToUpper ks) False
          else if key = XK_Shift \<or> key = XK_RightShift then ToString_loop keys buf True
          else if key = XK_ALT \<or> key = XK_Control \<or> key = XK_RightControl \<or> key = XK_Command
            then ToString_loop keys buf shift
          else ToString_loop keys (buf @ ks) shift)"

definition ToString :: "int list \<Rightarrow> string \<times> error option" where
  "ToString keys = ToString_loop keys '''' False"

section \<open>Ranging over a string: UTF-8\<close>

text \<open>
  \<open>for _, v := range s\<close> walks the bytes of \<open>s\<close> and yields one rune per step: the
  code point of the next well-formed UTF-8 sequence, or \<open>RuneError\<close> (U+FFFD) for a
  byte that starts none, in which case the walk advances by one byte only.
  \<open>DecodeRune\<close> returns the rune and the number of bytes it takes, as
  \<open>utf8.DecodeRuneInString\<close> does: the first byte fixes the length and the range
  allowed for the second byte (which excludes overlong forms, surrogates and code
  points above U+10FFFF).
\<close>

definition RuneError :: rune where
  "RuneError = 0xFFFD"

definition cont_byte :: "nat \<Rightarrow> bool" where
  "cont_byte b = (0x80 \<le> b \<and> b \<le> 0xBF)"

definition accept_lo :: "nat \<Rightarrow> nat" where
  "accept_lo b0 = (if b0 = 0xE0 then 0xA0 else if b0 = 0xF0 then 0x90 else 0x80)"

definition accept_hi :: "nat \<Rightarrow> nat" where
  "accept_hi b0 = (if b0 = 0xED then 0x9F else if b0 = 0xF4 then 0x8F else 0xBF)"

fun DecodeRune :: "nat list \<Rightarrow> rune \<times> nat" where
  "DecodeRune [] = (RuneError, 0)"
| "DecodeRune (b0 # bs) =
     (if b0 < 0x80 then (b0, 1)
      else if b0 < 0xC2 \<or> 0xF5 \<le> b0 then (RuneError, 1)
      else if b0 < 0xE0 then
        (case bs of
           b1 # _ \<Rightarrow>
             if accept_lo b0 \<le> b1 \<and> b1 \<le> accept_hi b0
             then ((b0 mod 32) * 64 + b1 mod 64, 2)
             else (RuneError, 1)
         | _ \<Rightarrow> (RuneError, 1))
      else if b0 < 0xF0 then
        (case bs of
           b1 # b2 # _ \<Rightarrow>
             if accept_lo b0 \<le> b1 \<and> b1 \<le> accept_hi b0 \<and> cont_byte b2
             then ((b0 mod 16) * 4096 + (b1 mod 64) * 64 + b2 mod 64, 3)
             else (RuneError, 1)
         | _ \<Rightarrow> (RuneError, 1))
      else
        (case bs of
           b1 # b2 # b3 # _ \<Rightarrow>
             if accept_lo b0 \<le> b1 \<and> b1 \<le> accept_hi b0 \<and> cont_byte b2 \<and> cont_byte b3
             then ((b0 mod 8) * 262144 + (b1 mod 64) * 4096 + (b2 mod 64) * 64 + b3 mod 64, 4)
             else (RuneError, 1)
         | _ \<Rightarrow> (RuneError, 1)))"

fun range_bytes :: "nat list \<Rightarrow> rune list" where
  "range_bytes [] = []"
| "range_bytes (b # bs) =
     (case DecodeRune (b # bs) of (r, w) \<Rightarrow> r # range_bytes (drop (w - 1) bs))"

definition range_string :: "string \<Rightarrow> rune list" where
  "range_string s = range_bytes (map of_char s)"

text \<open>
  The conversion \<open>string(v)\<close> of a rune: its UTF-8 encoding, and the encoding of
  U+FFFD for a value that is no code point (a surrogate or a value above U+10FFFF).
\<close>

definition string_of_rune :: "rune \<Rightarrow> string" where
  "string_of_rune r = map char_of
     (if r < 0x80 then [r]
      else if r < 0x800 then [0xC0 + r div 64, 0x80 + r mod 64]
      else if (0xD800 \<le> r \<and> r \<le> 0xDFFF) \<or> 0x10FFFF < r then [0xEF, 0xBF, 0xBD]
      else if r < 0x10000 then [0xE0 + r div 4096, 0x80 + (r div 64) mod 64, 0x80 + r mod 64]
      else [0xF0 + r div 262144, 0x80 + (r div 4096) mod 64, 0x80 + (r div 64) mod 64,
            0x80 + r mod 64])"

text \<open>
  The runes that are code points: up to U+10FFFF and no surrogate. Converting any
  other value to a string gives the encoding of U+FFFD.
\<close>

definition valid_rune :: "rune \<Rightarrow> bool" where
  "valid_rune r = (r \<le> 0x10FFFF \<and> \<not> (0xD800 \<le> r \<and> r \<le> 0xDFFF))"

section \<open>Case: \<open>strings.EqualFold\<close> and \<open>unicode.IsUpper\<close>\<close>

text \<open>
  \<open>strings.EqualFold s t\<close> compares the two strings rune by rune; two runes agree
  when they are equal or lie on one orbit of Unicode simple case folding. With the
  smaller rune \<open>lo\<close> and the larger \<open>hi\<close>: when \<open>hi\<close> is ASCII, \<open>lo\<close> is an upper-case
  letter and \<open>hi\<close> its lower-case form; when only \<open>lo\<close> is ASCII, the orbit of \<open>lo\<close>
  has a member outside ASCII for two letters only, \<open>K k\<close> with the Kelvin sign U+212A
  and \<open>S s\<close> with the long s U+017F. Two distinct runes outside ASCII are taken as
  different: in this program one argument is always a glyph of \<open>stringMap\<close>, which is
  ASCII, so that case does not arise.
\<close>

definition fold_eq :: "rune \<Rightarrow> rune \<Rightarrow> bool" where
  "fold_eq sr tr =
     (let lo = min sr tr; hi = max sr tr in
      lo = hi \<or>
      (if hi < 0x80 then 0x41 \<le> lo \<and> lo \<le> 0x5A \<and> hi = lo + 32
       else ((lo = 0x4B \<or> lo = 0x6B) \<and> hi = 0x212A) \<or> ((lo = 0x53 \<or> lo = 0x73) \<and> hi = 0x17F)))"

definition EqualFold :: "string \<Rightarrow> string \<Rightarrow> bool" where
  "EqualFold s t = list_all2 fold_eq (range_string s) (range_string t)"

text \<open>
  \<open>unicode.IsUpper\<close> on the runes \<open>ToKeys\<close> asks it about. \<open>ToKeys\<close> calls it only
  for a rune that \<open>EqualFold\<close> matched with a glyph of the table, hence for an ASCII
  character, the long s (a lower-case letter) or the Kelvin sign (an upper-case
  letter); see lemma \<open>found_rune_cases\<close>. On these the definition is the library's.
\<close>

definition IsUpper :: "rune \<Rightarrow> bool" where
  "IsUpper v = ((0x41 \<le> v \<and> v \<le> 0x5A) \<or> v = 0x212A)"

section \<open>\<open>ToKeys\<close>\<close>

text \<open>
  Go does not fix the order in which \<open>range\<close> visits a map, and the order may differ
  from one loop to the next. Each loop visits every entry once, so an order is a
  rearrangement of the entries. \<open>ToKeys\<close> takes the orders as a parameter: \<open>ord i\<close>
  is the order of the loop run for the \<open>i\<close>-th rune of the input.
\<close>

definition map_iteration :: "(int \<times> string) list \<Rightarrow> bool" where
  "map_iteration xs = (mset xs = mset stringMap_entries)"

text \<open>
  The inner loop: \<open>key\<close> and \<open>found\<close> start as \<open>0\<close> and \<open>false\<close>; the first entry
  whose glyph folds to \<open>string(v)\<close> sets them and breaks.
\<close>

fun find_key :: "(int \<times> string) list \<Rightarrow> rune \<Rightarrow> int \<times> bool" where
  "find_key [] v = (0, False)"
| "find_key ((k, ks) # rest) v =
     (if EqualFold ks (string_of_rune v) then (k, True) else find_key rest v)"

text \<open>
  The outer loop over the runes of \<open>s\<close>, with the slice \<open>keys\<close> passed along; the
  \<open>nil\<close> slice is the empty list.
\<close>

fun ToKeys_loop ::
  "(nat \<Rightarrow> (int \<times> string) list) \<Rightarrow> string \<Rightarrow> nat \<Rightarrow> rune list \<Rightarrow> int list
   \<Rightarrow> int list \<times> error option" where
  "ToKeys_loop ord s i [] keys = (keys, None)"
| "ToKeys_loop ord s i (v # vs) keys =
     (case find_key (ord i) v of
        (key, found) \<Rightarrow>
          if \<not> found then ([], Some (RuneNotFound v s))
          else if IsUpper v then ToKeys_loop ord s (Suc i) vs ((keys @ [XK_Shift]) @ [key])
          else ToKeys_loop ord s (Suc i) vs (keys @ [key]))"

definition ToKeys :: "(nat \<Rightarrow> (int \<times> string) list) \<Rightarrow> string \<Rightarrow> int list \<times> error option" where
  "ToKeys ord s = ToKeys_loop ord s 0 (range_string s) []"

section \<open>Keys that a rune can be mapped to\<close>

text \<open>
  \<open>glyph_keys g\<close> lists, in the order of the source, the keys whose glyph folds to
  the string \<open>g\<close>; \<open>folding_keys v\<close> are those for the string of the rune \<open>v\<close>: the
  keys at which the inner loop of \<open>ToKeys\<close> can stop for \<open>v\<close>. The list is empty
  when the rune matches no glyph, and has several elements when glyphs collide (the
  digit row and the keypad).
\<close>

definition glyph_keys :: "string \<Rightarrow> int list" where
  "glyph_keys g = [k. (k, ks) \<leftarrow> stringMap_entries, EqualFold ks g]"

definition folding_keys :: "rune \<Rightarrow> int list" where
  "folding_keys v = glyph_keys (string_of_rune v)"

section \<open>Facts about the table\<close>

lemma stringMap_keys_distinct: "distinct (map fst stringMap_entries)"
  by (simp add: stringMap_entries_def)

text \<open>None of the six modifier keys has an entry.\<close>

lemma stringMap_modifiers:
  "stringMap XK_Shift = None" "stringMap XK_RightShift = None" "stringMap XK_ALT = None"
  "stringMap XK_Control = None" "stringMap XK_RightControl = None" "stringMap XK_Command = None"
  by (simp_all add: stringMap_def stringMap_entries_def)

text \<open>
  Every glyph of the table is empty or one ASCII character that is not an upper-case
  letter.
\<close>

lemma stringMap_glyphs:
  "\<forall>(k, g)\<in>set stringMap_entries.
     length g \<le> 1 \<and> (\<forall>c\<in>set g. (of_char c :: nat) < 0x80 \<and> \<not> IsUpper (of_char c))"
  by (simp add: stringMap_entries_def IsUpper_def)

lemma stringMap_SomeD: "stringMap k = Some g \<Longrightarrow> (k, g) \<in> set stringMap_entries"
  by (simp add: stringMap_def map_of_SomeD)

lemma stringMap_glyph_cases:
  assumes "stringMap k = Some g" and "g \<noteq> []"
  obtains c where "g = [c]" and "(of_char c :: nat) < 0x80" and "\<not> IsUpper (of_char c)"
proof -
  from stringMap_glyphs stringMap_SomeD [OF assms(1)]
  have l: "length g \<le> 1" and a: "\<forall>c\<in>set g. (of_char c :: nat) < 0x80 \<and> \<not> IsUpper (of_char c)"
    by auto
  from l assms(2) obtain c where "g = [c]" by (cases g) auto
  with a that show thesis by simp
qed

section \<open>Properties of \<open>ToString\<close>\<close>

lemma ToString_loop_unknown:
  "ToString_loop pre buf sh = (t, None) \<Longrightarrow> stringMap k = None \<Longrightarrow>
   ToString_loop (pre @ k # post) buf sh = ('''', Some (KeyNotFound k))"
  by (induction pre arbitrary: buf sh) (auto split: option.splits if_splits)

text \<open>
  Claim C1. The claim: \<open>ToString [XK_Shift, XK_A]\<close> is \<open>"A"\<close> without error, and
  \<open>ToString [XK_A]\<close> is \<open>"a"\<close>. The code looks every key up in \<open>stringMap\<close> before
  it reaches the \<open>switch\<close>, and \<open>stringMap\<close> has no entry for \<open>XK_Shift\<close>: on
  \<open>[XK_Shift, XK_A]\<close> it returns the empty string and the error for key
  \<open>XK_Shift\<close>. On \<open>[XK_A]\<close> it returns \<open>"a"\<close>.
\<close>

theorem ToString_Shift_A:
  "ToString [XK_Shift, XK_A] = ('''', Some (KeyNotFound XK_Shift))
   \<and> ToString [XK_A] = (''a'', None)"
  by (simp add: ToString_def stringMap_def stringMap_entries_def)

text \<open>
  Claim C3. For every key \<open>k\<close> that has an entry \<open>g\<close> in \<open>stringMap\<close>,
  \<open>ToString [k]\<close> returns exactly \<open>g\<close> and no error; this holds for a non-empty
  glyph and for the empty glyph alike.
\<close>

theorem ToString_single:
  "stringMap k = Some g \<Longrightarrow> ToString [k] = (g, None)"
  using stringMap_modifiers by (auto simp: ToString_def)

theorem ToString_single_witness:
  "stringMap XK_A = Some ''a'' \<and> ToString [XK_A] = (''a'', None)
   \<and> stringMap XK_KeypadClear = Some '''' \<and> ToString [XK_KeypadClear] = ('''', None)
   \<and> stringMap XK_KeypadEnter = Some '''' \<and> ToString [XK_KeypadEnter] = ('''', None)"
proof -
  have a: "stringMap XK_A = Some ''a''"
    and b: "stringMap XK_KeypadClear = Some ''''"
    and c: "stringMap XK_KeypadEnter = Some ''''"
    by (simp_all add: stringMap_def stringMap_entries_def)
  show ?thesis
    using a b c ToString_single [OF a] ToString_single [OF b] ToString_single [OF c] by simp
qed

text \<open>
  Claim C4. When the keys before \<open>k\<close> convert without error and \<open>k\<close> has no entry
  in \<open>stringMap\<close>, \<open>ToString\<close> returns the error naming \<open>k\<close> together with the
  empty string, whatever text the earlier keys had produced and whatever follows.
\<close>

theorem ToString_fails_atomically:
  assumes "ToString pre = (t, None)" and "stringMap k = None"
  shows "ToString (pre @ k # post) = ('''', Some (KeyNotFound k))"
  using assms unfolding ToString_def by (rule ToString_loop_unknown)

theorem ToString_fails_atomically_witness:
  "ToString [XK_H, XK_I] = (''hi'', None) \<and> stringMap XK_ENTER = None
   \<and> ToString ([XK_H, XK_I] @ XK_ENTER # [XK_A]) = ('''', Some (KeyNotFound XK_ENTER))"
proof -
  have a: "ToString [XK_H, XK_I] = (''hi'', None)"
    by (simp add: ToString_def stringMap_def stringMap_entries_def)
  have b: "stringMap XK_ENTER = None"
    by (simp add: stringMap_def stringMap_entries_def)
  show ?thesis using a b ToString_fails_atomically [OF a b, of "[XK_A]"] by simp
qed

text \<open>
  Claim C7. The claim: \<open>ToString [XK_Control, XK_A]\<close> is \<open>"a"\<close> without error.
  \<open>stringMap\<close> has no entry for \<open>XK_Control\<close>, so the lookup that precedes the
  \<open>switch\<close> fails: the code returns the empty string and the error for key
  \<open>XK_Control\<close>.
\<close>

theorem ToString_Control_A:
  "ToString [XK_Control, XK_A] = ('''', Some (KeyNotFound XK_Control))"
  by (simp add: ToString_def stringMap_def stringMap_entries_def)

text \<open>
  Claim C8. The claim: a shift key at the end of a sequence whose earlier keys
  convert is harmless, the text of the earlier keys is returned. \<open>[XK_A]\<close> converts
  to \<open>"a"\<close>, and on \<open>[XK_A, XK_Shift]\<close> the code returns the empty string and the
  error for key \<open>XK_Shift\<close>, which has no entry in \<open>stringMap\<close>.
\<close>

theorem ToString_trailing_Shift:
  "ToString [XK_A] = (''a'', None)
   \<and> ToString [XK_A, XK_Shift] = ('''', Some (KeyNotFound XK_Shift))"
  by (simp add: ToString_def stringMap_def stringMap_entries_def)

section \<open>Encoding a rune and ranging over the result\<close>

text \<open>
  Ranging over \<open>string(r)\<close> yields the single rune \<open>r\<close> when \<open>r\<close> is a code
  point, and \<open>RuneError\<close> otherwise. The proof goes by the length of the encoding,
  on the base-64 digits of \<open>r\<close>.
\<close>

lemma of_char_char_of_small: "n < 256 \<Longrightarrow> of_char (char_of (n::nat)) = n"
  by (simp add: of_char_of)

lemma decode2:
  fixes q m :: nat
  assumes "2 \<le> q" "q < 32" "m < 64"
  shows "DecodeRune [0xC0 + q, 0x80 + m] = (q * 64 + m, 2)"
proof -
  have "(192 + q) mod 32 = q" using assms mod_mult_self4 [of 32 6 q] by simp
  moreover have "(128 + m) mod 64 = m" using assms mod_mult_self4 [of 64 2 m] by simp
  ultimately show ?thesis using assms by (simp add: accept_lo_def accept_hi_def)
qed

lemma decode3:
  fixes q2 q1 m :: nat
  assumes "q2 < 16" "q1 < 64" "m < 64" "q2 = 0 \<longrightarrow> 32 \<le> q1" "q2 = 13 \<longrightarrow> q1 < 32"
  shows "DecodeRune [0xE0 + q2, 0x80 + q1, 0x80 + m] = (q2 * 4096 + q1 * 64 + m, 3)"
proof -
  have "(224 + q2) mod 16 = q2" using assms mod_mult_self4 [of 16 14 q2] by simp
  moreover have "(128 + q1) mod 64 = q1" using assms mod_mult_self4 [of 64 2 q1] by simp
  moreover have "(128 + m) mod 64 = m" using assms mod_mult_self4 [of 64 2 m] by simp
  ultimately show ?thesis using assms by (auto simp: accept_lo_def accept_hi_def cont_byte_def)
qed

lemma decode4:
  fixes q3 q2 q1 m :: nat
  assumes "q3 < 5" "q2 < 64" "q1 < 64" "m < 64" "q3 = 0 \<longrightarrow> 16 \<le> q2" "q3 = 4 \<longrightarrow> q2 < 16"
  shows "DecodeRune [0xF0 + q3, 0x80 + q2, 0x80 + q1, 0x80 + m]
           = (q3 * 262144 + q2 * 4096 + q1 * 64 + m, 4)"
proof -
  have "(240 + q3) mod 8 = q3" using assms mod_mult_self4 [of 8 30 q3] by simp
  moreover have "(128 + q2) mod 64 = q2" using assms mod_mult_self4 [of 64 2 q2] by simp
  moreover have "(128 + q1) mod 64 = q1" using assms mod_mult_self4 [of 64 2 q1] by simp
  moreover have "(128 + m) mod 64 = m" using assms mod_mult_self4 [of 64 2 m] by simp
  ultimately show ?thesis using assms by (auto simp: accept_lo_def accept_hi_def cont_byte_def)
qed


lemma utf8_1: "r < 0x80 \<Longrightarrow> range_string (string_of_rune r) = [r]"
  by (simp add: range_string_def string_of_rune_def of_char_char_of_small)

lemma utf8_2:
  assumes "0x80 \<le> r" "r < 0x800"
  shows "range_string (string_of_rune r) = [r]"
proof -
  define q m where "q = r div 64" and "m = r mod 64"
  have r: "r = q * 64 + m" unfolding q_def m_def by simp
  have b: "2 \<le> q" "q < 32" "m < 64" using assms unfolding q_def m_def by simp_all
  have "map of_char (string_of_rune r) = [0xC0 + q, 0x80 + m]"
    using assms b by (simp add: string_of_rune_def q_def [symmetric] m_def [symmetric] of_char_char_of_small)
  then show ?thesis
    using decode2 [OF b] by (simp add: range_string_def r)
qed


lemma utf8_3:
  assumes "0x800 \<le> r" "r < 0x10000" "\<not> (0xD800 \<le> r \<and> r \<le> 0xDFFF)"
  shows "range_string (string_of_rune r) = [r]"
proof -
  define q2 q1 m where "q2 = r div 4096" and "q1 = (r div 64) mod 64" and "m = r mod 64"
  have d: "r div 4096 = (r div 64) div 64"
    using div_mult2_eq [of r 64 64] by simp
  have "r div 64 = q2 * 64 + q1" unfolding q2_def q1_def d by simp
  then have r: "r = q2 * 4096 + q1 * 64 + m"
    using div_mult_mod_eq [of r 64] unfolding m_def by simp
  have b: "q2 < 16" "q1 < 64" "m < 64" using assms unfolding q2_def q1_def m_def by simp_all
  have e0: "q2 = 0 \<longrightarrow> 32 \<le> q1" using assms(1) r b by auto
  have ed: "q2 = 13 \<longrightarrow> q1 < 32" using assms(3) r b by auto
  have s: "string_of_rune r = map char_of [0xE0 + q2, 0x80 + q1, 0x80 + m]"
    using assms unfolding q2_def q1_def m_def by (auto simp: string_of_rune_def)
  have "map of_char (string_of_rune r) = [0xE0 + q2, 0x80 + q1, 0x80 + m]"
    unfolding s using b by (simp add: of_char_char_of_small)
  then show ?thesis
    using decode3 [OF b e0 ed] by (simp add: range_string_def r)
qed

lemma utf8_4:
  assumes "0x10000 \<le> r" "r \<le> 0x10FFFF"
  shows "range_string (string_of_rune r) = [r]"
proof -
  define q3 q2 q1 m where "q3 = r div 262144" and "q2 = (r div 4096) mod 64"
    and "q1 = (r div 64) mod 64" and "m = r mod 64"
  have d1: "r div 4096 = (r div 64) div 64"
    using div_mult2_eq [of r 64 64] by simp
  have d2: "r div 262144 = (r div 4096) div 64"
    using div_mult2_eq [of r 4096 64] by simp
  have "r div 64 = (r div 4096) * 64 + q1" unfolding q1_def d1 by simp
  moreover have "r div 4096 = q3 * 64 + q2" unfolding q3_def q2_def d2 by simp
  ultimately have r: "r = q3 * 262144 + q2 * 4096 + q1 * 64 + m"
    using div_mult_mod_eq [of r 64] unfolding m_def by simp
  have b: "q3 < 5" "q2 < 64" "q1 < 64" "m < 64"
    using assms unfolding q3_def q2_def q1_def m_def by simp_all
  have f0: "q3 = 0 \<longrightarrow> 16 \<le> q2" using assms(1) r b by auto
  have f4: "q3 = 4 \<longrightarrow> q2 < 16" using assms(2) r b by auto
  have s: "string_of_rune r = map char_of [0xF0 + q3, 0x80 + q2, 0x80 + q1, 0x80 + m]"
    using assms unfolding q3_def q2_def q1_def m_def by (auto simp: string_of_rune_def)
  have "map of_char (string_of_rune r) = [0xF0 + q3, 0x80 + q2, 0x80 + q1, 0x80 + m]"
    unfolding s using b by (simp add: of_char_char_of_small)
  then show ?thesis
    using decode4 [OF b f0 f4] by (simp add: range_string_def r)
qed

lemma utf8_invalid:
  assumes "\<not> valid_rune r"
  shows "range_string (string_of_rune r) = [RuneError]"
proof -
  have "string_of_rune r = map char_of [0xEF::nat, 0xBF, 0xBD]"
    using assms by (auto simp: valid_rune_def string_of_rune_def)
  then show ?thesis
    by (simp add: range_string_def RuneError_def accept_lo_def accept_hi_def cont_byte_def)
qed

lemma range_string_of_rune:
  "range_string (string_of_rune r) = [if valid_rune r then r else RuneError]"
proof (cases "valid_rune r")
  case False
  then show ?thesis by (simp add: utf8_invalid)
next
  case True
  then have v: "r \<le> 0x10FFFF" "\<not> (0xD800 \<le> r \<and> r \<le> 0xDFFF)"
    by (simp_all add: valid_rune_def)
  consider "r < 0x80" | "0x80 \<le> r \<and> r < 0x800" | "0x800 \<le> r \<and> r < 0x10000" | "0x10000 \<le> r"
    by linarith
  then have "range_string (string_of_rune r) = [r]"
    using v by cases (simp_all add: utf8_1 utf8_2 utf8_3 utf8_4)
  with True show ?thesis by simp
qed

lemma string_of_rune_ascii: "(of_char c :: nat) < 0x80 \<Longrightarrow> string_of_rune (of_char c) = [c]"
  by (simp add: string_of_rune_def)

lemma range_string_ascii:
  "(of_char c :: nat) < 0x80 \<Longrightarrow> range_string (c # cs) = of_char c # range_string cs"
  by (simp add: range_string_def)

section \<open>The inner loop of \<open>ToKeys\<close>\<close>

lemmas fold_defs = folding_keys_def glyph_keys_def stringMap_entries_def EqualFold_def
  range_string_def string_of_rune_def fold_eq_def cont_byte_def accept_lo_def accept_hi_def
  RuneError_def

lemmas eval_defs = ToKeys_def stringMap_entries_def EqualFold_def range_string_def
  string_of_rune_def fold_eq_def cont_byte_def accept_lo_def accept_hi_def RuneError_def
  IsUpper_def

lemma find_key_found:
  "find_key xs v = (k, True) \<Longrightarrow> \<exists>ks. (k, ks) \<in> set xs \<and> EqualFold ks (string_of_rune v)"
  by (induction xs) (auto split: if_splits)

lemma find_key_not_found:
  "\<not> snd (find_key xs v) \<longleftrightarrow> (\<forall>(k, ks)\<in>set xs. \<not> EqualFold ks (string_of_rune v))"
  by (induction xs) (auto split: if_splits)

lemma find_key_not_found_val:
  "\<not> snd (find_key xs v) \<Longrightarrow> find_key xs v = (0, False)"
  by (induction xs) (auto split: if_splits)

lemma map_iteration_set: "map_iteration xs \<Longrightarrow> set xs = set stringMap_entries"
  unfolding map_iteration_def by (rule mset_eq_setD)

lemma set_folding_keys:
  "set (folding_keys v) =
     {k. \<exists>ks. (k, ks) \<in> set stringMap_entries \<and> EqualFold ks (string_of_rune v)}"
  by (auto simp: folding_keys_def glyph_keys_def)

lemma find_key_in_folding_keys:
  assumes "map_iteration xs" and "find_key xs v = (k, True)"
  shows "k \<in> set (folding_keys v)"
  using find_key_found [OF assms(2)] map_iteration_set [OF assms(1)]
  by (auto simp: set_folding_keys)

lemma find_key_none:
  assumes "map_iteration xs" and "folding_keys v = []"
  shows "find_key xs v = (0, False)"
proof -
  have "set (folding_keys v) = {}" using assms(2) by simp
  then have "\<forall>(k, ks)\<in>set stringMap_entries. \<not> EqualFold ks (string_of_rune v)"
    unfolding set_folding_keys by auto
  then have "\<not> snd (find_key xs v)"
    using map_iteration_set [OF assms(1)] by (simp add: find_key_not_found)
  then show ?thesis by (rule find_key_not_found_val)
qed

lemma find_key_some:
  assumes "map_iteration xs" and "folding_keys v \<noteq> []"
  shows "\<exists>k. find_key xs v = (k, True) \<and> k \<in> set (folding_keys v)"
proof -
  from assms(2) obtain k0 where "k0 \<in> set (folding_keys v)"
    by (cases "folding_keys v") auto
  then have "\<not> (\<forall>(k, ks)\<in>set xs. \<not> EqualFold ks (string_of_rune v))"
    using map_iteration_set [OF assms(1)] unfolding set_folding_keys by auto
  then have "snd (find_key xs v)" using find_key_not_found by blast
  then obtain k where k: "find_key xs v = (k, True)" by (cases "find_key xs v") auto
  with find_key_in_folding_keys [OF assms(1) k] show ?thesis by blast
qed

lemma find_key_unique:
  assumes "map_iteration xs" and "folding_keys v = [k]"
  shows "find_key xs v = (k, True)"
  using find_key_some [OF assms(1), of v] assms(2) by auto

text \<open>
  A rune for which the inner loop finds a key is an ASCII character, the long s or
  the Kelvin sign: the runes on which \<open>IsUpper\<close> is evaluated.
\<close>

lemma fold_eq_ascii:
  "c < 0x80 \<Longrightarrow> fold_eq c v \<Longrightarrow> v < 0x80 \<or> v = 0x17F \<or> v = 0x212A"
  by (auto simp: fold_eq_def Let_def min_def max_def split: if_splits)

lemma EqualFold_glyph_cases:
  assumes "(k, ks) \<in> set stringMap_entries" and "EqualFold ks (string_of_rune v)"
  shows "v < 0x80 \<or> v = 0x17F \<or> v = 0x212A"
proof -
  from stringMap_glyphs assms(1)
  have l: "length ks \<le> 1" and a: "\<forall>c\<in>set ks. (of_char c :: nat) < 0x80" by auto
  let ?v = "if valid_rune v then v else RuneError"
  from assms(2) have e: "list_all2 fold_eq (range_string ks) [?v]"
    by (simp add: EqualFold_def range_string_of_rune)
  then have "ks \<noteq> []" by (auto simp: range_string_def)
  with l obtain c where c: "ks = [c]" by (cases ks) auto
  with a have "(of_char c :: nat) < 0x80" by simp
  moreover from this e c have "fold_eq (of_char c) ?v" by (simp add: range_string_def)
  ultimately have "?v < 0x80 \<or> ?v = 0x17F \<or> ?v = 0x212A" by (rule fold_eq_ascii)
  then show ?thesis by (auto simp: RuneError_def split: if_splits)
qed

lemma found_rune_cases:
  assumes "map_iteration xs" and "snd (find_key xs v)"
  shows "v < 0x80 \<or> v = 0x17F \<or> v = 0x212A"
proof -
  from assms(2) obtain k where "find_key xs v = (k, True)" by (cases "find_key xs v") auto
  from find_key_found [OF this] map_iteration_set [OF assms(1)]
  obtain ks where "(k, ks) \<in> set stringMap_entries" "EqualFold ks (string_of_rune v)" by auto
  then show ?thesis by (rule EqualFold_glyph_cases)
qed

lemma fk_lower:
  "folding_keys 97 = [XK_A]" "folding_keys 100 = [XK_D]" "folding_keys 101 = [XK_E]"
  "folding_keys 108 = [XK_L]" "folding_keys 111 = [XK_O]" "folding_keys 114 = [XK_R]"
  "folding_keys 32 = [XK_SPACE]"
  by (simp_all add: fold_defs)

lemma fk_upper:
  "folding_keys 65 = [XK_A]" "folding_keys 72 = [XK_H]" "folding_keys 87 = [XK_W]"
  by (simp_all add: fold_defs)

lemma Shift_not_in_table: "XK_Shift \<notin> fst ` set stringMap_entries"
  by (simp add: stringMap_entries_def)

lemma Shift_not_folding_key: "XK_Shift \<notin> set (folding_keys v)"
  using Shift_not_in_table by (force simp: set_folding_keys)

section \<open>Properties of \<open>ToKeys\<close>\<close>

lemma ToKeys_loop_unmapped:
  assumes "\<forall>i. map_iteration (ord i)"
    and "\<forall>u\<in>set pre. folding_keys u \<noteq> []"
    and "folding_keys v = []"
  shows "ToKeys_loop ord s i (pre @ v # post) keys = ([], Some (RuneNotFound v s))"
  using assms(2)
proof (induction pre arbitrary: i keys)
  case Nil
  have "find_key (ord i) v = (0, False)" using assms(1,3) by (simp add: find_key_none)
  then show ?case by simp
next
  case (Cons u pre)
  have "map_iteration (ord i)" using assms(1) by simp
  moreover have "folding_keys u \<noteq> []" using Cons.prems by simp
  ultimately obtain k where "find_key (ord i) u = (k, True)"
    using find_key_some by blast
  then show ?case using Cons by simp
qed

text \<open>
  Claim C5. Let the runes of \<open>s\<close> be \<open>pre\<close>, then \<open>v\<close>, then \<open>post\<close>, where every
  rune of \<open>pre\<close> folds to some glyph of the table and \<open>v\<close> folds to none. Then,
  whatever the orders in which the map is visited, \<open>ToKeys\<close> returns the error
  naming \<open>v\<close> together with the \<open>nil\<close> slice: none of the keys found for \<open>pre\<close>
  is returned.
\<close>

theorem ToKeys_fails_atomically:
  assumes "\<forall>i. map_iteration (ord i)"
    and "range_string s = pre @ v # post"
    and "\<forall>u\<in>set pre. folding_keys u \<noteq> []"
    and "folding_keys v = []"
  shows "ToKeys ord s = ([], Some (RuneNotFound v s))"
  unfolding ToKeys_def assms(2) using assms(1,3,4) by (rule ToKeys_loop_unmapped)

theorem ToKeys_fails_atomically_witness:
  "(\<forall>i. map_iteration ((\<lambda>_. rev stringMap_entries) i))
   \<and> range_string [CHR ''a'', CHR 0xF0, CHR 0x9F, CHR 0x98, CHR 0x80, CHR ''b'']
       = [97] @ 0x1F600 # [98]
   \<and> folding_keys 97 = [XK_A]
   \<and> folding_keys 0x1F600 = []
   \<and> ToKeys (\<lambda>_. rev stringMap_entries)
        [CHR ''a'', CHR 0xF0, CHR 0x9F, CHR 0x98, CHR 0x80, CHR ''b'']
       = ([], Some (RuneNotFound 0x1F600
                     [CHR ''a'', CHR 0xF0, CHR 0x9F, CHR 0x98, CHR 0x80, CHR ''b'']))"
proof -
  have h1: "\<forall>i. map_iteration ((\<lambda>_. rev stringMap_entries) i)"
    by (simp add: map_iteration_def)
  have h2: "range_string [CHR ''a'', CHR 0xF0, CHR 0x9F, CHR 0x98, CHR 0x80, CHR ''b'']
              = [97] @ 0x1F600 # [98]"
    by (simp add: range_string_def cont_byte_def accept_lo_def accept_hi_def)
  have h3: "folding_keys 97 = [XK_A]"
    by (simp add: fold_defs)
  have h3': "\<forall>u\<in>set [97]. folding_keys u \<noteq> []"
    using h3 by simp
  have h4: "folding_keys 0x1F600 = []"
    by (simp add: fold_defs)
  show ?thesis using h1 h2 h3 h4 ToKeys_fails_atomically [OF h1 h2 h3' h4] by blast
qed

lemma ToKeys_loop_shape:
  assumes "\<forall>i. map_iteration (ord i)"
  shows "ToKeys_loop ord s i vs keys = (res, None) \<Longrightarrow>
     \<exists>ms. list_all2 (\<lambda>v m. m \<in> set (folding_keys v)) vs ms \<and>
          res = keys @ concat (map2 (\<lambda>v m. if IsUpper v then [XK_Shift, m] else [m]) vs ms)"
proof (induction vs arbitrary: i keys)
  case Nil
  then show ?case by simp
next
  case (Cons v vs)
  obtain key found where kf: "find_key (ord i) v = (key, found)"
    by (cases "find_key (ord i) v")
  with Cons.prems have f: found by (auto split: if_splits)
  have mi: "map_iteration (ord i)" using assms by simp
  have key: "key \<in> set (folding_keys v)"
    using find_key_in_folding_keys [OF mi] kf f by simp
  let ?keys' = "if IsUpper v then (keys @ [XK_Shift]) @ [key] else keys @ [key]"
  have "ToKeys_loop ord s (Suc i) vs ?keys' = (res, None)"
    using Cons.prems kf f by (simp split: if_splits)
  from Cons.IH [OF this] obtain ms where
    ms: "list_all2 (\<lambda>v m. m \<in> set (folding_keys v)) vs ms"
    and res: "res = ?keys' @
      concat (map2 (\<lambda>v m. if IsUpper v then [XK_Shift, m] else [m]) vs ms)"
    by blast
  have "list_all2 (\<lambda>v m. m \<in> set (folding_keys v)) (v # vs) (key # ms)"
    using key ms by simp
  moreover have "res = keys @
      concat (map2 (\<lambda>v m. if IsUpper v then [XK_Shift, m] else [m]) (v # vs) (key # ms))"
    using res by simp
  ultimately show ?case by blast
qed

text \<open>
  Claim C6. Whatever the orders in which the map is visited, \<open>ToKeys "a"\<close> is
  \<open>[XK_A]\<close> and \<open>ToKeys "A"\<close> is \<open>[XK_Shift, XK_A]\<close>. In general, when \<open>ToKeys\<close>
  succeeds on \<open>s\<close>, there is one matched key \<open>m\<close> per rune \<open>v\<close> of \<open>s\<close>, a key
  whose glyph folds to \<open>v\<close>, and the result is the concatenation, rune by rune, of
  \<open>[XK_Shift, m]\<close> for an upper-case \<open>v\<close> and of \<open>[m]\<close> otherwise. No matched key is
  \<open>XK_Shift\<close> itself, so the shift codes of the result are exactly those put in
  front of the keys of the upper-case runes.
\<close>

theorem ToKeys_Shift_before_upper:
  assumes "\<forall>i. map_iteration (ord i)"
  shows "ToKeys ord ''a'' = ([XK_A], None) \<and> ToKeys ord ''A'' = ([XK_Shift, XK_A], None)
    \<and> (ToKeys ord s = (keys, None) \<longrightarrow>
        (\<exists>ms. list_all2 (\<lambda>v m. m \<in> set (folding_keys v)) (range_string s) ms
             \<and> XK_Shift \<notin> set ms
             \<and> keys = concat (map2 (\<lambda>v m. if IsUpper v then [XK_Shift, m] else [m])
                                   (range_string s) ms)))"
proof -
  have mi: "map_iteration (ord i)" for i using assms by simp
  have a: "ToKeys ord ''a'' = ([XK_A], None)"
    by (simp add: ToKeys_def range_string_def IsUpper_def find_key_unique [OF mi fk_lower(1)])
  have b: "ToKeys ord ''A'' = ([XK_Shift, XK_A], None)"
    by (simp add: ToKeys_def range_string_def IsUpper_def find_key_unique [OF mi fk_upper(1)])
  have c: "\<exists>ms. list_all2 (\<lambda>v m. m \<in> set (folding_keys v)) (range_string s) ms
             \<and> XK_Shift \<notin> set ms
             \<and> keys = concat (map2 (\<lambda>v m. if IsUpper v then [XK_Shift, m] else [m])
                                   (range_string s) ms)"
    if "ToKeys ord s = (keys, None)"
  proof -
    from ToKeys_loop_shape [OF assms, of s 0 "range_string s" "[]" keys] that
    obtain ms where ms: "list_all2 (\<lambda>v m. m \<in> set (folding_keys v)) (range_string s) ms"
      and k: "keys = concat (map2 (\<lambda>v m. if IsUpper v then [XK_Shift, m] else [m])
                                  (range_string s) ms)"
      by (auto simp: ToKeys_def)
    have "XK_Shift \<notin> set ms"
    proof
      assume "XK_Shift \<in> set ms"
      then obtain j where "j < length ms" "ms ! j = XK_Shift"
        by (auto simp: in_set_conv_nth)
      with ms have "XK_Shift \<in> set (folding_keys (range_string s ! j))"
        by (auto simp: list_all2_conv_all_nth)
      then show False using Shift_not_folding_key by blast
    qed
    with ms k show ?thesis by blast
  qed
  from a b c show ?thesis by blast
qed

theorem ToKeys_Shift_before_upper_witness:
  "(\<forall>i. map_iteration ((\<lambda>_. rev stringMap_entries) i))
   \<and> ToKeys (\<lambda>_. rev stringMap_entries) ''a'' = ([XK_A], None)
   \<and> ToKeys (\<lambda>_. rev stringMap_entries) ''A'' = ([XK_Shift, XK_A], None)
   \<and> ToKeys (\<lambda>_. rev stringMap_entries) ''xYz'' = ([XK_X, XK_Shift, XK_Y, XK_Z], None)
   \<and> (\<exists>ms. list_all2 (\<lambda>v m. m \<in> set (folding_keys v)) (range_string ''xYz'') ms
          \<and> XK_Shift \<notin> set ms
          \<and> [XK_X, XK_Shift, XK_Y, XK_Z] =
              concat (map2 (\<lambda>v m. if IsUpper v then [XK_Shift, m] else [m])
                           (range_string ''xYz'') ms))"
proof -
  have h: "\<forall>i. map_iteration ((\<lambda>_. rev stringMap_entries) i)"
    by (simp add: map_iteration_def)
  have a: "ToKeys (\<lambda>_. rev stringMap_entries) ''xYz'' = ([XK_X, XK_Shift, XK_Y, XK_Z], None)"
    by (simp add: eval_defs)
  show ?thesis
    using h a ToKeys_Shift_before_upper [OF h, of "''xYz''" "[XK_X, XK_Shift, XK_Y, XK_Z]"]
    by blast
qed

text \<open>
  Claim C9. Whatever the orders in which the map is visited, \<open>ToKeys "Hello World"\<close>
  succeeds, and its result is the keys of \<open>h e l l o\<close>, of the space and of
  \<open>w o r l d\<close>, with \<open>XK_Shift\<close> in front of the key of \<open>H\<close> and of the key of \<open>W\<close>
  and nowhere else.
\<close>

theorem ToKeys_Hello_World:
  assumes "\<forall>i. map_iteration (ord i)"
  shows "ToKeys ord ''Hello World'' =
    ([XK_Shift, XK_H, XK_E, XK_L, XK_L, XK_O, XK_SPACE,
      XK_Shift, XK_W, XK_O, XK_R, XK_L, XK_D], None)"
proof -
  have mi: "map_iteration (ord i)" for i using assms by simp
  note fk = fk_lower [THEN find_key_unique [OF mi]] fk_upper [THEN find_key_unique [OF mi]]
  show ?thesis
    by (simp add: ToKeys_def range_string_def IsUpper_def fk)
qed

theorem ToKeys_Hello_World_witness:
  "(\<forall>i. map_iteration ((\<lambda>i. if even i then stringMap_entries else rev stringMap_entries) i))
   \<and> ToKeys (\<lambda>i. if even i then stringMap_entries else rev stringMap_entries) ''Hello World'' =
    ([XK_Shift, XK_H, XK_E, XK_L, XK_L, XK_O, XK_SPACE,
      XK_Shift, XK_W, XK_O, XK_R, XK_L, XK_D], None)"
proof -
  have h: "\<forall>i. map_iteration
                 ((\<lambda>i. if even i then stringMap_entries else rev stringMap_entries) i)"
    by (simp add: map_iteration_def)
  show ?thesis using h ToKeys_Hello_World [OF h] by blast
qed

lemma ToKeys_loop_length:
  "ToKeys_loop ord s i vs keys = (res, None) \<Longrightarrow>
   length res = length keys + length vs + length (filter IsUpper vs)"
proof (induction vs arbitrary: i keys)
  case Nil
  then show ?case by simp
next
  case (Cons v vs)
  show ?case
  proof (cases "find_key (ord i) v")
    case (Pair key found)
    with Cons.prems have f: found by (auto split: if_splits)
    show ?thesis
    proof (cases "IsUpper v")
      case True
      with Pair f Cons.prems
      have "ToKeys_loop ord s (Suc i) vs ((keys @ [XK_Shift]) @ [key]) = (res, None)"
        by simp
      from Cons.IH [OF this] True show ?thesis by simp
    next
      case False
      with Pair f Cons.prems
      have "ToKeys_loop ord s (Suc i) vs (keys @ [key]) = (res, None)"
        by simp
      from Cons.IH [OF this] False show ?thesis by simp
    qed
  qed
qed

text \<open>
  Claim C10. When \<open>ToKeys\<close> succeeds on \<open>s\<close>, the length of its result is the number
  of runes of \<open>s\<close> plus the number of upper-case runes of \<open>s\<close>; on the empty string
  it succeeds with the empty slice. Both hold for any orders of visiting the map.
\<close>

theorem ToKeys_length:
  "(ToKeys ord s = (keys, None) \<longrightarrow>
      length keys = length (range_string s) + length (filter IsUpper (range_string s)))
   \<and> ToKeys ord '''' = ([], None)"
  using ToKeys_loop_length [of ord s 0 "range_string s" "[]" keys]
  by (simp add: ToKeys_def range_string_def)

theorem ToKeys_length_witness:
  "ToKeys (\<lambda>_. stringMap_entries) ''Go 1'' = ([XK_Shift, XK_G, XK_O, XK_SPACE, XK_1], None)
   \<and> length [XK_Shift, XK_G, XK_O, XK_SPACE, XK_1] =
       length (range_string ''Go 1'') + length (filter IsUpper (range_string ''Go 1''))
   \<and> ToKeys (\<lambda>_. stringMap_entries) '''' = ([], None)"
proof -
  have a: "ToKeys (\<lambda>_. stringMap_entries) ''Go 1''
             = ([XK_Shift, XK_G, XK_O, XK_SPACE, XK_1], None)"
    by (simp add: eval_defs)
  show ?thesis
    using a ToKeys_length [of "\<lambda>_. stringMap_entries" "''Go 1''"
                              "[XK_Shift, XK_G, XK_O, XK_SPACE, XK_1]"]
    by blast
qed

section \<open>Round trip\<close>

lemma ToString_loop_plain:
  assumes "\<forall>k\<in>set codes. \<exists>g. stringMap k = Some g"
  shows "ToString_loop codes buf False = (buf @ concat (map (\<lambda>k. the (stringMap k)) codes), None)"
  using assms
proof (induction codes arbitrary: buf)
  case Nil
  then show ?case by simp
next
  case (Cons k codes)
  then obtain g where g: "stringMap k = Some g" by auto
  then have "k \<noteq> XK_Shift" "k \<noteq> XK_RightShift" "k \<noteq> XK_ALT" "k \<noteq> XK_Control"
    "k \<noteq> XK_RightControl" "k \<noteq> XK_Command"
    using stringMap_modifiers by auto
  then have "ToString_loop (k # codes) buf False = ToString_loop codes (buf @ g) False"
    using g by simp
  also have "\<dots> = ((buf @ g) @ concat (map (\<lambda>k. the (stringMap k)) codes), None)"
    using Cons by simp
  finally show ?case using g by simp
qed

lemma ToKeys_loop_plain:
  assumes "\<forall>i. map_iteration (ord i)"
    and "\<forall>k\<in>set codes. \<exists>g. stringMap k = Some g \<and> g \<noteq> '''' \<and> glyph_keys g = [k]"
  shows "ToKeys_loop ord s i (range_string (concat (map (\<lambda>k. the (stringMap k)) codes))) keys
           = (keys @ codes, None)"
  using assms(2)
proof (induction codes arbitrary: i keys)
  case Nil
  then show ?case by (simp add: range_string_def)
next
  case (Cons k codes)
  then obtain g where g: "stringMap k = Some g" "g \<noteq> ''''" "glyph_keys g = [k]" by auto
  from stringMap_glyph_cases [OF g(1,2)] obtain c
    where c: "g = [c]" "(of_char c :: nat) < 0x80" "\<not> IsUpper (of_char c)" by blast
  have "folding_keys (of_char c) = [k]"
    using g(3) c by (simp add: folding_keys_def string_of_rune_ascii)
  moreover have "map_iteration (ord i)" using assms(1) by simp
  ultimately have f: "find_key (ord i) (of_char c) = (k, True)"
    by (simp add: find_key_unique)
  have "range_string (concat (map (\<lambda>k. the (stringMap k)) (k # codes)))
          = of_char c # range_string (concat (map (\<lambda>k. the (stringMap k)) codes))"
    using g(1) c by (simp add: range_string_ascii)
  then show ?case using f c(3) Cons by simp
qed

text \<open>
  Claim C2. Let every code of \<open>codes\<close> have a non-empty glyph in the table to which
  no glyph of another key folds, and let no code be a modifier. Then \<open>ToString\<close>
  succeeds on \<open>codes\<close>, and \<open>ToKeys\<close> on the text it returns succeeds and returns
  \<open>codes\<close>, whatever the orders in which the map is visited.
\<close>

theorem round_trip:
  assumes "\<forall>i. map_iteration (ord i)"
    and "\<forall>k\<in>set codes. \<exists>g. stringMap k = Some g \<and> g \<noteq> '''' \<and> glyph_keys g = [k]"
    and "\<forall>k\<in>set codes. k \<notin> {XK_Shift, XK_RightShift, XK_ALT, XK_Control, XK_RightControl, XK_Command}"
  shows "snd (ToString codes) = None \<and> ToKeys ord (fst (ToString codes)) = (codes, None)"
proof -
  have "\<forall>k\<in>set codes. \<exists>g. stringMap k = Some g" using assms(2) by blast
  then have t: "ToString codes = (concat (map (\<lambda>k. the (stringMap k)) codes), None)"
    unfolding ToString_def by (simp add: ToString_loop_plain)
  show ?thesis
    unfolding t ToKeys_def using ToKeys_loop_plain [OF assms(1,2), where keys = "[]"] by simp
qed

theorem round_trip_witness:
  "ToString [XK_H, XK_E, XK_L, XK_L, XK_O, XK_SPACE, XK_TAB, XK_GRAVE] = (''hello '' @ [CHR 0x09, CHR 0x60], None)
   \<and> ToKeys (\<lambda>_. rev stringMap_entries) (''hello '' @ [CHR 0x09, CHR 0x60])
       = ([XK_H, XK_E, XK_L, XK_L, XK_O, XK_SPACE, XK_TAB, XK_GRAVE], None)"
proof -
  have h1: "\<forall>i. map_iteration ((\<lambda>_. rev stringMap_entries) i)"
    by (simp add: map_iteration_def)
  have h2: "\<forall>k\<in>set [XK_H, XK_E, XK_L, XK_L, XK_O, XK_SPACE, XK_TAB, XK_GRAVE].
              \<exists>g. stringMap k = Some g \<and> g \<noteq> '''' \<and> glyph_keys g = [k]"
    by (simp add: stringMap_def fold_defs)
  have h3: "\<forall>k\<in>set [XK_H, XK_E, XK_L, XK_L, XK_O, XK_SPACE, XK_TAB, XK_GRAVE].
              k \<notin> {XK_Shift, XK_RightShift, XK_ALT, XK_Control, XK_RightControl, XK_Command}"
    by simp
  have t: "ToString [XK_H, XK_E, XK_L, XK_L, XK_O, XK_SPACE, XK_TAB, XK_GRAVE] = (''hello '' @ [CHR 0x09, CHR 0x60], None)"
    by (simp add: ToString_def stringMap_def stringMap_entries_def)
  show ?thesis using t round_trip [OF h1 h2 h3] by simp
qed

end
